theory Spec2Isabelle
  imports Complex_Main
begin

section \<open>Data model\<close>

text \<open>
  The audio layer of the streaming system: \<^verbatim>\<open>BaseReal\<close> (basereal.py) owns the playback
  state and the custom clips, \<^verbatim>\<open>BaseASR\<close> (baseasr.py) owns the inbound chunk queue, the
  frames buffer and the output channel, and holds a reference to its \<^verbatim>\<open>BaseReal\<close> parent.

  Python integers are unbounded, so they are \<open>int\<close>; \<open>//\<close> and \<open>%\<close> round towards minus
  infinity, as \<open>div\<close> and \<open>mod\<close> on \<open>int\<close> do. A PCM sample is only ever copied or
  set to zero, never computed with, so a sample is a \<open>real\<close> and an audio buffer (one
  channel) is a list of samples. A decoded image is opaque pixel data.
  Dictionaries are maps; a lookup of a missing key raises \<^verbatim>\<open>KeyError\<close>.
\<close>

type_synonym sample = real
type_synonym image = "nat list"

datatype error =
    KeyError
  | ZeroDivisionError
  | ValueError string
  | BlocksForever

datatype tts_engine = EdgeTTS | VoitsTTS | XTTS

text \<open>
  One entry of \<^verbatim>\<open>opt.customopt\<close>, a dictionary: the three keys that \<^verbatim>\<open>__loadcustom\<close>
  reads. A key that the dictionary lacks is \<open>None\<close>, and reading it raises \<^verbatim>\<open>KeyError\<close>.
\<close>

record custom_item =
  audiotype :: "int option"
  imgpath :: "string option"
  audiopath :: "string option"

text \<open>The fields of \<^verbatim>\<open>opt\<close> that the two classes read.\<close>

record opt =
  opt_fps :: int
  opt_tts :: string
  opt_customopt :: "custom_item list"
  opt_batch_size :: int
  opt_l :: int
  opt_r :: int

record basereal =
  sample_rate :: int
  chunk :: int
  tts :: tts_engine
  curr_state :: int
  custom_img_cycle :: "int \<rightharpoonup> image list"
  custom_audio_cycle :: "int \<rightharpoonup> sample list"
  custom_audio_index :: "int \<rightharpoonup> int"
  custom_index :: "int \<rightharpoonup> int"
  custom_opt :: "int \<rightharpoonup> custom_item"

section \<open>Slicing\<close>

text \<open>
  \<^verbatim>\<open>xs[lo:hi]\<close> on a sequence of length \<open>n\<close>: a negative bound counts from the end, each
  bound is clamped into \<open>[0, n]\<close>, and the slice is empty when the bounds cross. Nothing
  is ever appended: a slice that reaches past the end is shorter than \<open>hi - lo\<close>.
\<close>

definition slice_bound :: "int \<Rightarrow> int \<Rightarrow> int" where
  "slice_bound n i = (if i < 0 then max (i + n) 0 else min i n)"

definition py_slice :: "'a list \<Rightarrow> int \<Rightarrow> int \<Rightarrow> 'a list" where
  "py_slice xs lo hi =
     (let n = int (length xs); a = slice_bound n lo; b = slice_bound n hi
      in take (nat (b - a)) (drop (nat a) xs))"

section \<open>BaseReal\<close>

text \<open>\<^verbatim>\<open>BaseReal.mirror_index\<close>; \<open>index // size\<close> raises on \<open>size = 0\<close>.\<close>

definition mirror_index :: "int \<Rightarrow> int \<Rightarrow> error + int" where
  "mirror_index sz index =
     (if sz = 0 then Inl ZeroDivisionError
      else let turn = index div sz; res = index mod sz
           in if turn mod 2 = 0 then Inr res else Inr (sz - res - 1))"

text \<open>
  \<^verbatim>\<open>BaseReal.get_audio_stream\<close>. The two dictionary reads raise \<^verbatim>\<open>KeyError\<close> for an
  unregistered id, before anything is written. The chunk is the plain slice
  \<^verbatim>\<open>[idx : idx + chunk]\<close>; the cursor then advances by \<open>chunk\<close> whatever the slice held,
  and the state becomes 1 (silence) when the advanced cursor is at or past the length of
  the clip. The result is the chunk and the updated object.
\<close>

definition get_audio_stream :: "basereal \<Rightarrow> int \<Rightarrow> error + (sample list \<times> basereal)" where
  "get_audio_stream s a =
     (case custom_audio_index s a of
        None \<Rightarrow> Inl KeyError
      | Some idx \<Rightarrow>
          (case custom_audio_cycle s a of
             None \<Rightarrow> Inl KeyError
           | Some audio \<Rightarrow>
               let stream = py_slice audio idx (idx + chunk s);
                   s1 = s\<lparr>custom_audio_index := (custom_audio_index s)(a \<mapsto> idx + chunk s)\<rparr>
               in if int (length audio) \<le> idx + chunk s
                  then Inr (stream, s1\<lparr>curr_state := 1\<rparr>)
                  else Inr (stream, s1)))"

text \<open>Repeated retrieval from one source: the chunks in order, and the final object.\<close>

fun get_audio_stream_n :: "nat \<Rightarrow> basereal \<Rightarrow> int \<Rightarrow> error + (sample list list \<times> basereal)" where
  "get_audio_stream_n 0 s a = Inr ([], s)"
| "get_audio_stream_n (Suc k) s a =
     (case get_audio_stream s a of
        Inl e \<Rightarrow> Inl e
      | Inr (x, s1) \<Rightarrow>
          (case get_audio_stream_n k s1 a of
             Inl e \<Rightarrow> Inl e
           | Inr (xs, s2) \<Rightarrow> Inr (x # xs, s2)))"

text \<open>
  \<^verbatim>\<open>BaseReal.set_curr_state\<close>. There is no check of the id: the assignment to
  \<^verbatim>\<open>curr_state\<close> and the two dictionary stores succeed for every integer.
\<close>

definition set_curr_state :: "basereal \<Rightarrow> int \<Rightarrow> bool \<Rightarrow> basereal" where
  "set_curr_state s a reinit =
     (let s1 = s\<lparr>curr_state := a\<rparr>
      in if reinit
         then s1\<lparr>custom_audio_index := (custom_audio_index s1)(a \<mapsto> 0),
                 custom_index := (custom_index s1)(a \<mapsto> 0)\<rparr>
         else s1)"

text \<open>\<^verbatim>\<open>BaseReal.init_customindex\<close>: every key present in a cursor dictionary is set to 0.\<close>

definition init_customindex :: "basereal \<Rightarrow> basereal" where
  "init_customindex s =
     s\<lparr>curr_state := 0,
       custom_audio_index := (\<lambda>key. map_option (\<lambda>_. 0) (custom_audio_index s key)),
       custom_index := (\<lambda>key. map_option (\<lambda>_. 0) (custom_index s key))\<rparr>"

section \<open>Loading custom sources\<close>

text \<open>
  The loader talks to the file system through library calls, which are parameters here:
  \<^item> \<open>glob_imgs dir\<close> is \<^verbatim>\<open>glob.glob(os.path.join(dir, '*.[jpJP][pnPN]*[gG]'))\<close>; a glob
    never raises, and a directory that does not exist matches no file;
  \<^item> \<open>file_number path\<close> is \<^verbatim>\<open>int(os.path.splitext(os.path.basename(path))[0])\<close>, \<open>None\<close>
    when \<^verbatim>\<open>int\<close> raises \<^verbatim>\<open>ValueError\<close>;
  \<^item> \<open>imread path\<close> is \<^verbatim>\<open>cv2.imread(path)\<close>, \<open>None\<close> for a file that cannot be decoded;
  \<^item> \<open>sf_read path\<close> is the sample buffer of \<^verbatim>\<open>sf.read(path, dtype='float32')\<close>,
    \<open>None\<close> when it raises.
  What the code prints is returned as a list of lines.
\<close>

record env =
  glob_imgs :: "string \<Rightarrow> string list"
  file_number :: "string \<Rightarrow> int option"
  imread :: "string \<Rightarrow> image option"
  sf_read :: "string \<Rightarrow> sample list option"

datatype log_line =
    Loading_custom custom_item
  | Reading_images
  | Failed_to_read_image string
  | Loaded nat int
  | Error_loading int

fun read_imgs_loop :: "(string \<Rightarrow> image option) \<Rightarrow> string list \<Rightarrow> image list \<times> log_line list" where
  "read_imgs_loop rd [] = ([], [])"
| "read_imgs_loop rd (img_path # rest) =
     (let (frames, out) = read_imgs_loop rd rest
      in case rd img_path of
           None \<Rightarrow> (frames, Failed_to_read_image img_path # out)
         | Some frame \<Rightarrow> (frame # frames, out))"

definition read_imgs :: "env \<Rightarrow> string list \<Rightarrow> image list \<times> log_line list" where
  "read_imgs e img_list =
     (let (frames, out) = read_imgs_loop (imread e) img_list
      in (frames, Reading_images # out))"

text \<open>
  \<^verbatim>\<open>sorted(paths, key=number)\<close>: the key is computed for every element, so one file name
  that is not a number makes the whole call raise; otherwise a stable sort by the key.
\<close>

definition sorted_by_number :: "(string \<Rightarrow> int option) \<Rightarrow> string list \<Rightarrow> string list option" where
  "sorted_by_number num xs =
     (if list_all (\<lambda>x. num x \<noteq> None) xs
      then Some (sort_key (\<lambda>x. the (num x)) xs)
      else None)"

text \<open>
  The \<^verbatim>\<open>except\<close> branch of \<^verbatim>\<open>__loadcustom\<close>: it prints a line that reads
  \<^verbatim>\<open>item['audiotype']\<close>, so for an entry without that key the handler itself raises
  \<^verbatim>\<open>KeyError\<close>, which leaves \<^verbatim>\<open>__loadcustom\<close> and the constructor.
\<close>

definition load_failed :: "custom_item \<Rightarrow> basereal \<times> log_line list \<Rightarrow> error + (basereal \<times> log_line list)" where
  "load_failed item = (\<lambda>(s, out).
     case audiotype item of
       None \<Rightarrow> Inl KeyError
     | Some a \<Rightarrow> Inr (s, out @ [Error_loading a]))"

text \<open>
  One iteration of the loop of \<^verbatim>\<open>BaseReal.__loadcustom\<close>, in the order in which the source
  evaluates: \<^verbatim>\<open>item['imgpath']\<close>, the glob and the sort; then \<^verbatim>\<open>read_imgs\<close> and only then
  the key \<^verbatim>\<open>item['audiotype']\<close> of the store into the image dictionary; then
  \<^verbatim>\<open>item['audiopath']\<close> and \<^verbatim>\<open>sf.read\<close>, and the four remaining stores. Every exception
  inside the \<^verbatim>\<open>try\<close> block goes to the handler with the object as it is at that point, so
  an audio file that cannot be read leaves the image entry behind.
\<close>

definition load_item :: "env \<Rightarrow> custom_item \<Rightarrow> basereal \<times> log_line list \<Rightarrow> error + (basereal \<times> log_line list)" where
  "load_item e item = (\<lambda>(s, out).
     let out1 = out @ [Loading_custom item]
     in case imgpath item of
          None \<Rightarrow> load_failed item (s, out1)
        | Some dir \<Rightarrow>
            (case sorted_by_number (file_number e) (glob_imgs e dir) of
               None \<Rightarrow> load_failed item (s, out1)
             | Some input_img_list \<Rightarrow>
                 let (imgs, rd_out) = read_imgs e input_img_list;
                     out2 = out1 @ rd_out
                 in case audiotype item of
                      None \<Rightarrow> load_failed item (s, out2)
                    | Some a \<Rightarrow>
                        let s1 = s\<lparr>custom_img_cycle := (custom_img_cycle s)(a \<mapsto> imgs)\<rparr>
                        in case audiopath item of
                             None \<Rightarrow> load_failed item (s1, out2)
                           | Some path \<Rightarrow>
                               (case sf_read e path of
                                  None \<Rightarrow> load_failed item (s1, out2)
                                | Some audio \<Rightarrow>
                                    Inr (s1\<lparr>custom_audio_cycle := (custom_audio_cycle s1)(a \<mapsto> audio),
                                            custom_audio_index := (custom_audio_index s1)(a \<mapsto> 0),
                                            custom_index := (custom_index s1)(a \<mapsto> 0),
                                            custom_opt := (custom_opt s1)(a \<mapsto> item)\<rparr>,
                                         out2 @ [Loaded (length input_img_list) a]))))"

text \<open>The loop of \<^verbatim>\<open>__loadcustom\<close>: an exception that leaves an iteration ends the loop.\<close>

fun load_items :: "env \<Rightarrow> custom_item list \<Rightarrow> basereal \<times> log_line list \<Rightarrow> error + (basereal \<times> log_line list)" where
  "load_items e [] acc = Inr acc"
| "load_items e (item # rest) acc =
     (case load_item e item acc of
        Inl err \<Rightarrow> Inl err
      | Inr acc1 \<Rightarrow> load_items e rest acc1)"

definition loadcustom :: "env \<Rightarrow> custom_item list \<Rightarrow> basereal \<Rightarrow> error + (basereal \<times> log_line list)" where
  "loadcustom e items s = load_items e items (s, [])"

text \<open>
  What the file system gives for one entry: the decoded images of its directory in the
  order of their numbers, and its audio buffer. \<open>loads_ok\<close>: the body of the \<^verbatim>\<open>try\<close> block
  runs to its end for this entry, that is, the three keys are there, every globbed file
  name is a number and the audio file can be read.
\<close>

definition loaded_images :: "env \<Rightarrow> custom_item \<Rightarrow> image list option" where
  "loaded_images e item =
     (case imgpath item of
        None \<Rightarrow> None
      | Some dir \<Rightarrow>
          map_option (\<lambda>input_img_list. fst (read_imgs e input_img_list))
            (sorted_by_number (file_number e) (glob_imgs e dir)))"

definition loaded_audio :: "env \<Rightarrow> custom_item \<Rightarrow> sample list option" where
  "loaded_audio e item =
     (case audiopath item of None \<Rightarrow> None | Some path \<Rightarrow> sf_read e path)"

definition loads_ok :: "env \<Rightarrow> custom_item \<Rightarrow> bool" where
  "loads_ok e item =
     (audiotype item \<noteq> None \<and> loaded_images e item \<noteq> None \<and> loaded_audio e item \<noteq> None)"


definition last_loaded :: "env \<Rightarrow> custom_item list \<Rightarrow> int \<Rightarrow> custom_item option" where
  "last_loaded e items a =
     find (\<lambda>item. audiotype item = Some a \<and> loads_ok e item) (rev items)"

definition last_imaged :: "env \<Rightarrow> custom_item list \<Rightarrow> int \<Rightarrow> custom_item option" where
  "last_imaged e items a =
     find (\<lambda>item. audiotype item = Some a \<and> loaded_images e item \<noteq> None) (rev items)"

text \<open>
  \<^verbatim>\<open>BaseReal.__init__\<close>. \<open>16000 // opt.fps\<close> comes first and raises for \<open>fps = 0\<close>; an engine
  name other than the three known ones raises \<^verbatim>\<open>ValueError\<close> with the message of the
  source; an exception that leaves \<^verbatim>\<open>__loadcustom\<close> leaves the constructor. The engine
  objects themselves are outside this layer and are kept as a tag.
\<close>

definition select_tts :: "string \<Rightarrow> tts_engine option" where
  "select_tts name =
     (if name = ''edgetts'' then Some EdgeTTS
      else if name = ''gpt-sovits'' then Some VoitsTTS
      else if name = ''xtts'' then Some XTTS
      else None)"

definition init_basereal :: "env \<Rightarrow> opt \<Rightarrow> error + (basereal \<times> log_line list)" where
  "init_basereal e opt =
     (if opt_fps opt = 0 then Inl ZeroDivisionError
      else case select_tts (opt_tts opt) of
             None \<Rightarrow>
               Inl (ValueError (''Unknown TTS type: '' @ opt_tts opt @
                                ''. Supported types: edgetts, gpt-sovits, xtts''))
           | Some engine \<Rightarrow>
               loadcustom e (opt_customopt opt)
                 \<lparr>sample_rate = 16000, chunk = 16000 div opt_fps opt, tts = engine,
                  curr_state = 0, custom_img_cycle = Map.empty,
                  custom_audio_cycle = Map.empty, custom_audio_index = Map.empty,
                  custom_index = Map.empty, custom_opt = Map.empty\<rparr>)"

section \<open>BaseASR\<close>

text \<open>
  The inbound queue, the frames buffer and the output channel are lists, oldest element
  first. The parent is the \<^verbatim>\<open>BaseReal\<close> object that the instance refers to; what
  \<^verbatim>\<open>get_audio_frame\<close> does to it is written back into the field. The model is sequential:
  the queue holds what producers have pushed so far, a \<^verbatim>\<open>get\<close> with a timeout on an empty
  queue times out, and a \<^verbatim>\<open>get\<close> without a timeout on an empty channel never returns.
\<close>

record baseasr =
  parent :: "basereal option"
  fps :: int
  asr_sample_rate :: int
  asr_chunk :: int
  queue :: "sample list list"
  output_queue :: "(sample list \<times> int) list"
  batch_size :: int
  frames :: "sample list list"
  stride_left_size :: int
  stride_right_size :: int
  feat_queue :: "sample list list"

definition init_baseasr :: "opt \<Rightarrow> basereal option \<Rightarrow> error + baseasr" where
  "init_baseasr opt p =
     (if opt_fps opt = 0 then Inl ZeroDivisionError
      else Inr \<lparr>parent = p, fps = opt_fps opt, asr_sample_rate = 16000,
                asr_chunk = 16000 div opt_fps opt, queue = [], output_queue = [],
                batch_size = opt_batch_size opt, frames = [],
                stride_left_size = opt_l opt, stride_right_size = opt_r opt,
                feat_queue = []\<rparr>)"

definition pause_talk :: "baseasr \<Rightarrow> baseasr" where
  "pause_talk s = s\<lparr>queue := []\<rparr>"

definition put_audio_frame :: "baseasr \<Rightarrow> sample list \<Rightarrow> baseasr" where
  "put_audio_frame s audio_chunk = s\<lparr>queue := queue s @ [audio_chunk]\<rparr>"

text \<open>\<^verbatim>\<open>np.zeros(n, dtype=np.float32)\<close> raises for a negative length.\<close>

definition np_zeros :: "int \<Rightarrow> error + sample list" where
  "np_zeros n =
     (if n < 0 then Inl (ValueError ''negative dimensions are not allowed'')
      else Inr (replicate (nat n) 0))"

text \<open>
  \<^verbatim>\<open>BaseASR.get_audio_frame\<close>. In the custom branch the tag is read from
  \<^verbatim>\<open>parent.curr_state\<close> after \<^verbatim>\<open>get_audio_stream\<close> has run, so it is the state that the
  retrieval left behind.
\<close>

definition get_audio_frame :: "baseasr \<Rightarrow> error + ((sample list \<times> int) \<times> baseasr)" where
  "get_audio_frame s =
     (case queue s of
        frame # rest \<Rightarrow> Inr ((frame, 0), s\<lparr>queue := rest\<rparr>)
      | [] \<Rightarrow>
          (case parent s of
             Some p \<Rightarrow>
               if 1 < curr_state p
               then (case get_audio_stream p (curr_state p) of
                       Inl e \<Rightarrow> Inl e
                     | Inr (frame, p1) \<Rightarrow> Inr ((frame, curr_state p1), s\<lparr>parent := Some p1\<rparr>))
               else (case np_zeros (asr_chunk s) of
                       Inl e \<Rightarrow> Inl e
                     | Inr frame \<Rightarrow> Inr ((frame, 1), s))
           | None \<Rightarrow>
               (case np_zeros (asr_chunk s) of
                  Inl e \<Rightarrow> Inl e
                | Inr frame \<Rightarrow> Inr ((frame, 1), s))))"

definition get_audio_out :: "baseasr \<Rightarrow> error + ((sample list \<times> int) \<times> baseasr)" where
  "get_audio_out s =
     (case output_queue s of
        [] \<Rightarrow> Inl BlocksForever
      | x # rest \<Rightarrow> Inr (x, s\<lparr>output_queue := rest\<rparr>))"

text \<open>
  \<^verbatim>\<open>BaseASR.warm_up\<close>: the two loops. \<^verbatim>\<open>range(n)\<close> is empty for \<open>n \<le> 0\<close>, so each loop runs
  \<open>nat n\<close> times.
\<close>

fun warm_up_fill :: "nat \<Rightarrow> baseasr \<Rightarrow> error + baseasr" where
  "warm_up_fill 0 s = Inr s"
| "warm_up_fill (Suc n) s =
     (case get_audio_frame s of
        Inl e \<Rightarrow> Inl e
      | Inr ((audio_frame, frame_type), s1) \<Rightarrow>
          warm_up_fill n
            (s1\<lparr>frames := frames s1 @ [audio_frame],
                output_queue := output_queue s1 @ [(audio_frame, frame_type)]\<rparr>))"

fun warm_up_drain :: "nat \<Rightarrow> baseasr \<Rightarrow> error + baseasr" where
  "warm_up_drain 0 s = Inr s"
| "warm_up_drain (Suc n) s =
     (case get_audio_out s of
        Inl e \<Rightarrow> Inl e
      | Inr (_, s1) \<Rightarrow> warm_up_drain n s1)"

definition warm_up :: "baseasr \<Rightarrow> error + baseasr" where
  "warm_up s =
     (case warm_up_fill (nat (stride_left_size s + stride_right_size s)) s of
        Inl e \<Rightarrow> Inl e
      | Inr s1 \<Rightarrow> warm_up_drain (nat (stride_left_size s1)) s1)"

text \<open>
  The pairs that \<open>n\<close> successive calls of \<^verbatim>\<open>get_audio_frame\<close> return, with the object they
  leave: the reference that the buffers of \<^verbatim>\<open>warm_up\<close> are compared with.
\<close>

fun get_audio_frames :: "nat \<Rightarrow> baseasr \<Rightarrow> error + ((sample list \<times> int) list \<times> baseasr)" where
  "get_audio_frames 0 s = Inr ([], s)"
| "get_audio_frames (Suc n) s =
     (case get_audio_frame s of
        Inl e \<Rightarrow> Inl e
      | Inr (x, s1) \<Rightarrow>
          (case get_audio_frames n s1 of
             Inl e \<Rightarrow> Inl e
           | Inr (xs, s2) \<Rightarrow> Inr (x # xs, s2)))"

text \<open>
  A state in which \<^verbatim>\<open>get_audio_frame\<close> cannot raise: the chunk length is not negative
  and, when a custom state is current, its id has a cursor and a clip.
\<close>

definition playable :: "baseasr \<Rightarrow> bool" where
  "playable s =
     (0 \<le> asr_chunk s \<and>
      (case parent s of
         None \<Rightarrow> True
       | Some p \<Rightarrow>
           curr_state p \<le> 1 \<or>
           (custom_audio_index p (curr_state p) \<noteq> None \<and>
            custom_audio_cycle p (curr_state p) \<noteq> None)))"

section \<open>Example objects\<close>

text \<open>
  A source with id 2 whose clip has three samples, played in chunks of two samples
  (\<open>fps = 8000\<close>), with the same source on an empty clip, and the first object after two
  retrievals.
\<close>

definition clip3 :: basereal where
  "clip3 =
     \<lparr>sample_rate = 16000, chunk = 2, tts = EdgeTTS, curr_state = 2,
      custom_img_cycle = [2 \<mapsto> [[0], [1]]],
      custom_audio_cycle = [2 \<mapsto> [1, 2, 3]],
      custom_audio_index = [2 \<mapsto> 0],
      custom_index = [2 \<mapsto> 0],
      custom_opt = [2 \<mapsto> \<lparr>audiotype = Some 2, imgpath = Some ''data/custom2'',
                              audiopath = Some ''data/custom2.wav''\<rparr>]\<rparr>"

definition clip0 :: basereal where
  "clip0 = clip3\<lparr>custom_audio_cycle := [2 \<mapsto> []]\<rparr>"

definition clip3_played :: basereal where
  "clip3_played = clip3\<lparr>custom_audio_index := [2 \<mapsto> 4], curr_state := 1\<rparr>"

text \<open>
  A \<^verbatim>\<open>BaseASR\<close> object with empty buffers whose parent is the source above, and a parent
  that has gone silent in the middle of its clip, with both cursors of source 2 advanced.
\<close>

definition asr3 :: baseasr where
  "asr3 =
     \<lparr>parent = Some clip3, fps = 8000, asr_sample_rate = 16000, asr_chunk = 2,
      queue = [], output_queue = [], batch_size = 1, frames = [],
      stride_left_size = 2, stride_right_size = 1, feat_queue = []\<rparr>"

definition paused :: basereal where
  "paused = clip3\<lparr>curr_state := 1, custom_audio_index := [2 \<mapsto> 2], custom_index := [2 \<mapsto> 5]\<rparr>"

text \<open>
  A freshly constructed object without sources, a file system with one image directory
  (two numbered images) and one audio file, three entries of \<^verbatim>\<open>customopt\<close> (a good one,
  one whose image directory does not exist, one whose audio file does not exist, one
  without the key of the id), and options that select an unknown engine, with a usable
  frame rate and without one.
\<close>

definition fresh :: basereal where
  "fresh =
     \<lparr>sample_rate = 16000, chunk = 320, tts = EdgeTTS, curr_state = 0,
      custom_img_cycle = Map.empty, custom_audio_cycle = Map.empty,
      custom_audio_index = Map.empty, custom_index = Map.empty, custom_opt = Map.empty\<rparr>"

definition example_env :: env where
  "example_env =
     \<lparr>glob_imgs = (\<lambda>d. if d = ''data/custom2''
                        then [''data/custom2/10.png'', ''data/custom2/9.png''] else []),
      file_number = (\<lambda>p. if p = ''data/custom2/10.png'' then Some 10
                          else if p = ''data/custom2/9.png'' then Some 9 else None),
      imread = (\<lambda>p. if p = ''data/custom2/10.png'' then Some [10]
                     else if p = ''data/custom2/9.png'' then Some [9] else None),
      sf_read = (\<lambda>p. if p = ''data/custom2.wav'' then Some [1, 2, 3] else None)\<rparr>"

definition good2 :: custom_item where
  "good2 = \<lparr>audiotype = Some 2, imgpath = Some ''data/custom2'',
            audiopath = Some ''data/custom2.wav''\<rparr>"


definition bad_audio4 :: custom_item where
  "bad_audio4 = \<lparr>audiotype = Some 4, imgpath = Some ''data/custom2'',
                 audiopath = Some ''data/missing.wav''\<rparr>"




section \<open>Custom chunk retrieval\<close>

lemma py_slice_nat: "py_slice xs (int i) (int i + int c) = take c (drop i xs)"
proof (cases "i \<le> length xs")
  case True
  then show ?thesis
    by (cases "i + c \<le> length xs") (simp_all add: py_slice_def slice_bound_def Let_def min_def nat_diff_distrib')
next
  case False
  then show ?thesis
    by (simp add: py_slice_def slice_bound_def Let_def min_def)
qed

lemma ceil_upper: "0 < c \<Longrightarrow> (L::nat) \<le> ((L + c - 1) div c) * c"
proof -
  assume c: "0 < c"
  have "(L + c - 1) mod c < c" using c by simp
  moreover have "((L + c - 1) div c) * c + (L + c - 1) mod c = L + c - 1" by simp
  ultimately show ?thesis by linarith
qed

lemma ceil_lower: "0 < c \<Longrightarrow> ((L + c - 1) div c) * c < (L::nat) + c"
proof -
  assume c: "0 < c"
  have "((L + c - 1) div c) * c + (L + c - 1) mod c = L + c - 1" by simp
  then show ?thesis using c by linarith
qed

lemma get_audio_stream_step:
  assumes "custom_audio_cycle s a = Some audio" "custom_audio_index s a = Some idx"
  shows "get_audio_stream s a =
           Inr (py_slice audio idx (idx + chunk s),
                s\<lparr>custom_audio_index := (custom_audio_index s)(a \<mapsto> idx + chunk s),
                  curr_state := (if int (length audio) \<le> idx + chunk s then 1 else curr_state s)\<rparr>)"
  using assms by (simp add: get_audio_stream_def Let_def)

lemma get_audio_stream_n_run:
  assumes "custom_audio_cycle s a = Some audio" "custom_audio_index s a = Some idx" "0 \<le> chunk s"
  shows "\<exists>chunks s'. get_audio_stream_n k s a = Inr (chunks, s') \<and>
           length chunks = k \<and>
           (\<forall>j<k. chunks ! j = py_slice audio (idx + int j * chunk s) (idx + int j * chunk s + chunk s)) \<and>
           custom_audio_cycle s' = custom_audio_cycle s \<and> chunk s' = chunk s \<and>
           custom_audio_index s' a = Some (idx + int k * chunk s) \<and>
           curr_state s' = (if 1 \<le> k \<and> int (length audio) \<le> idx + int k * chunk s then 1 else curr_state s)"
  using assms
proof (induction k arbitrary: s idx)
  case 0
  then show ?case by simp
next
  case (Suc k)
  let ?c = "chunk s"
  let ?s1 = "s\<lparr>custom_audio_index := (custom_audio_index s)(a \<mapsto> idx + ?c),
                  curr_state := (if int (length audio) \<le> idx + ?c then 1 else curr_state s)\<rparr>"
  have step: "get_audio_stream s a = Inr (py_slice audio idx (idx + ?c), ?s1)"
    using Suc.prems by (simp add: get_audio_stream_step)
  have "custom_audio_cycle ?s1 a = Some audio" "custom_audio_index ?s1 a = Some (idx + ?c)" "0 \<le> chunk ?s1"
    using Suc.prems by simp_all
  from Suc.IH [OF this]
  obtain xs s' where run: "get_audio_stream_n k ?s1 a = Inr (xs, s')"
    and len: "length xs = k"
    and nth: "\<forall>j<k. xs ! j = py_slice audio (idx + ?c + int j * ?c) (idx + ?c + int j * ?c + ?c)"
    and cyc: "custom_audio_cycle s' = custom_audio_cycle s" and ch: "chunk s' = ?c"
    and ix: "custom_audio_index s' a = Some (idx + ?c + int k * ?c)"
    and st: "curr_state s' = (if 1 \<le> k \<and> int (length audio) \<le> idx + ?c + int k * ?c then 1 else curr_state ?s1)"
    by auto
  have r: "get_audio_stream_n (Suc k) s a = Inr (py_slice audio idx (idx + ?c) # xs, s')"
    using step run by simp
  have n: "\<forall>j<Suc k. (py_slice audio idx (idx + ?c) # xs) ! j = py_slice audio (idx + int j * ?c) (idx + int j * ?c + ?c)"
  proof (intro allI impI)
    fix j assume "j < Suc k"
    then show "(py_slice audio idx (idx + ?c) # xs) ! j = py_slice audio (idx + int j * ?c) (idx + int j * ?c + ?c)"
      using nth by (cases j) (simp_all add: algebra_simps)
  qed
  have mono: "idx + ?c \<le> idx + ?c + int k * ?c"
    using Suc.prems(3) by simp
  have st': "curr_state s' = (if int (length audio) \<le> idx + int (Suc k) * ?c then 1 else curr_state s)"
    using st mono by (cases "k = 0") (auto simp: algebra_simps)
  show ?case
    using r len n cyc ch ix st' by (simp add: algebra_simps)
qed


lemma get_audio_stream_n_concat:
  assumes "custom_audio_cycle s a = Some audio" "custom_audio_index s a = Some (int i)"
    "chunk s = int c"
  shows "\<exists>chunks s'. get_audio_stream_n k s a = Inr (chunks, s') \<and>
           concat chunks = take (k * c) (drop i audio)"
  using assms
proof (induction k arbitrary: s i)
  case 0
  then show ?case by simp
next
  case (Suc k)
  let ?s1 = "s\<lparr>custom_audio_index := (custom_audio_index s)(a \<mapsto> int i + chunk s),
                  curr_state := (if int (length audio) \<le> int i + chunk s then 1 else curr_state s)\<rparr>"
  have step: "get_audio_stream s a = Inr (take c (drop i audio), ?s1)"
    using Suc.prems by (simp add: get_audio_stream_step py_slice_nat)
  have "custom_audio_cycle ?s1 a = Some audio" "custom_audio_index ?s1 a = Some (int (i + c))"
    "chunk ?s1 = int c"
    using Suc.prems by simp_all
  from Suc.IH [OF this]
  obtain xs s' where run: "get_audio_stream_n k ?s1 a = Inr (xs, s')"
    and cat: "concat xs = take (k * c) (drop (i + c) audio)"
    by auto
  have "take c (drop i audio) @ take (k * c) (drop (i + c) audio) = take (c + k * c) (drop i audio)"
    by (simp add: take_add add.commute)
  then show ?case
    using step run cat by simp
qed

text \<open>
  Claim C1, as the code has it. For a registered source with a clip of \<open>L\<close> samples,
  chunk length \<open>c > 0\<close> and cursor 0, the call number \<open>n = max 1 (ceil (L / c))\<close> (which is
  \<open>ceil (L / c)\<close> for every non-empty clip) is the first one that sets the state to 1
  (silence): after fewer calls the state is still the initial one. The \<open>j\<close>-th chunk is
  the slice of the clip from \<open>j * c\<close>, the chunks together are exactly the clip, and the
  final chunk is the unpadded rest of the clip from \<open>(n - 1) * c\<close>: its length is
  \<open>L - (n - 1) * c\<close>, at most \<open>c\<close>, and equal to \<open>c\<close> only when \<open>L = n * c\<close>.
\<close>

theorem get_audio_stream_exhaustion:
  assumes "custom_audio_cycle s a = Some audio" and "custom_audio_index s a = Some 0"
    and "chunk s = int c" and "0 < c"
    and "n = max 1 ((length audio + c - 1) div c)"
  shows "\<exists>chunks s'. get_audio_stream_n n s a = Inr (chunks, s') \<and>
           length chunks = n \<and> curr_state s' = 1 \<and>
           (\<forall>k<n. \<exists>cs sk. get_audio_stream_n k s a = Inr (cs, sk) \<and> curr_state sk = curr_state s) \<and>
           (\<forall>j<n. chunks ! j = take c (drop (j * c) audio)) \<and>
           concat chunks = audio \<and>
           last chunks = drop ((n - 1) * c) audio \<and>
           length (last chunks) = length audio - (n - 1) * c \<and>
           length (last chunks) \<le> c \<and>
           (length (last chunks) = c \<longleftrightarrow> length audio = n * c)"
proof -
  let ?L = "length audio"
  have c0: "0 \<le> chunk s"
    using assms(3) by simp
  have n1: "1 \<le> n"
    using assms(5) by simp
  have e: "(n - 1) * c = n * c - c"
    by (simp add: diff_mult_distrib)
  have cn: "c \<le> n * c"
    using mult_le_mono1 [OF n1, of c] by simp
  have up: "?L \<le> n * c"
  proof -
    have "?L \<le> ((?L + c - 1) div c) * c"
      using assms(4) by (rule ceil_upper)
    also have "\<dots> \<le> n * c"
      using assms(5) by simp
    finally show ?thesis .
  qed
  have low: "(n - 1) * c < ?L" if "0 < ?L"
  proof -
    have "c \<le> ?L + c - 1"
      using that by linarith
    then have "0 < (?L + c - 1) div c"
      using assms(4) by (simp only: div_greater_zero_iff)
    then have "1 \<le> (?L + c - 1) div c"
      by linarith
    then have "n = (?L + c - 1) div c"
      using assms(5) by simp
    then have "n * c < ?L + c"
      using ceil_lower [OF assms(4), of ?L] by simp
    then show ?thesis
      using that e by linarith
  qed
  have before: "\<not> (1 \<le> k \<and> int ?L \<le> 0 + int k * chunk s)" if "k < n" for k
  proof (cases "0 < ?L")
    case True
    have "k \<le> n - 1"
      using that by linarith
    then have "k * c \<le> (n - 1) * c"
      by (rule mult_le_mono1)
    then have "k * c < ?L"
      using low [OF True] by linarith
    then have "int k * int c < int ?L"
      by (metis of_nat_less_iff of_nat_mult)
    then show ?thesis
      using assms(3) by simp
  next
    case False
    then have "n = 1"
      using assms(4,5) by simp
    then show ?thesis
      using that by simp
  qed
  from get_audio_stream_n_run [OF assms(1,2) c0, of n]
  obtain chunks s' where run: "get_audio_stream_n n s a = Inr (chunks, s')"
    and len: "length chunks = n"
    and nth: "\<forall>j<n. chunks ! j = py_slice audio (0 + int j * chunk s) (0 + int j * chunk s + chunk s)"
    and st: "curr_state s' = (if 1 \<le> n \<and> int ?L \<le> 0 + int n * chunk s then 1 else curr_state s)"
    by blast
  have "int ?L \<le> int n * int c"
    using up by (metis of_nat_le_iff of_nat_mult)
  then have st1: "curr_state s' = 1"
    using st n1 assms(3) by simp
  have unchanged: "\<forall>k<n. \<exists>cs sk. get_audio_stream_n k s a = Inr (cs, sk) \<and> curr_state sk = curr_state s"
  proof (intro allI impI)
    fix k assume kn: "k < n"
    from get_audio_stream_n_run [OF assms(1,2) c0, of k]
    obtain cs sk where "get_audio_stream_n k s a = Inr (cs, sk)"
      and "curr_state sk = (if 1 \<le> k \<and> int ?L \<le> 0 + int k * chunk s then 1 else curr_state s)"
      by blast
    then show "\<exists>cs sk. get_audio_stream_n k s a = Inr (cs, sk) \<and> curr_state sk = curr_state s"
      using before [OF kn] by auto
  qed
  have nth': "\<forall>j<n. chunks ! j = take c (drop (j * c) audio)"
  proof (intro allI impI)
    fix j assume "j < n"
    then have "chunks ! j = py_slice audio (int (j * c)) (int (j * c) + int c)"
      using nth assms(3) by simp
    then show "chunks ! j = take c (drop (j * c) audio)"
      by (simp only: py_slice_nat)
  qed
  from get_audio_stream_n_concat [of s a audio 0 c n] assms(1,2,3)
  have "\<exists>chunks s'. get_audio_stream_n n s a = Inr (chunks, s') \<and> concat chunks = take (n * c) audio"
    by simp
  then have cat: "concat chunks = audio"
    using run up by auto
  have ne: "chunks \<noteq> []"
    using len n1 by auto
  have "last chunks = chunks ! (n - 1)"
    using ne len by (simp add: last_conv_nth)
  also have "\<dots> = take c (drop ((n - 1) * c) audio)"
    using nth' n1 by simp
  also have "\<dots> = drop ((n - 1) * c) audio"
  proof -
    have "?L - (n - 1) * c \<le> c"
      using up e cn by linarith
    then show ?thesis by simp
  qed
  finally have lst: "last chunks = drop ((n - 1) * c) audio" .
  have ll: "length (last chunks) = ?L - (n - 1) * c"
    using lst by simp
  have lc: "length (last chunks) \<le> c"
    using ll up e cn by linarith
  have iff: "length (last chunks) = c \<longleftrightarrow> ?L = n * c"
  proof
    assume "length (last chunks) = c"
    then have "?L - (n - 1) * c = c"
      using ll by simp
    then show "?L = n * c"
      using assms(4) e cn by linarith
  next
    assume "?L = n * c"
    then show "length (last chunks) = c"
      using ll e cn by linarith
  qed
  show ?thesis
    using run len st1 unchanged nth' cat lst ll lc iff by blast
qed

theorem get_audio_stream_exhaustion_witness:
  "custom_audio_cycle clip3 2 = Some [1, 2, 3] \<and> custom_audio_index clip3 2 = Some 0 \<and>
   chunk clip3 = int 2 \<and> (0::nat) < 2 \<and>
   (2::nat) = max 1 ((length [1, 2, 3::real] + 2 - 1) div 2) \<and>
   (\<exists>chunks s'. get_audio_stream_n 2 clip3 2 = Inr (chunks, s') \<and> curr_state s' = 1 \<and>
      last chunks = [3] \<and> length (last chunks) = 1)"
proof -
  have h1: "custom_audio_cycle clip3 2 = Some [1, 2, 3]"
    and h2: "custom_audio_index clip3 2 = Some 0"
    and h3: "chunk clip3 = int 2"
    by (simp_all add: clip3_def)
  have h4: "(0::nat) < 2"
    by simp
  have h5: "(2::nat) = max 1 ((length [1, 2, 3::real] + 2 - 1) div 2)"
    by simp
  from get_audio_stream_exhaustion [OF h1 h2 h3 h4 h5]
  obtain chunks s' where "get_audio_stream_n 2 clip3 2 = Inr (chunks, s')"
    and "curr_state s' = 1"
    and "last chunks = drop ((2 - 1) * 2) [1, 2, 3::real]"
    by blast
  then have "get_audio_stream_n 2 clip3 2 = Inr (chunks, s') \<and> curr_state s' = 1 \<and>
      last chunks = [3] \<and> length (last chunks) = 1"
    by simp
  then show ?thesis
    using h1 h2 h3 h4 h5 by blast
qed

text \<open>
  The claim as stated fails. With three samples and chunks of two, the second and final
  chunk has one sample, not two: nothing is appended to the slice. With an empty clip,
  \<open>ceil (L / c)\<close> is 0, and after no call at all the state is still the custom one.
\<close>

theorem get_audio_stream_padding_counterexample:
  "get_audio_stream_n 2 clip3 2 = Inr ([[1, 2], [3]], clip3_played) \<and>
   (length [1, 2, 3::real] + 2 - 1) div 2 = (2::nat) \<and>
   int (length (last [[1, 2], [3::real]])) \<noteq> chunk clip3 \<and>
   (length ([]::real list) + 2 - 1) div 2 = (0::nat) \<and>
   get_audio_stream_n 0 clip0 2 = Inr ([], clip0) \<and> curr_state clip0 \<noteq> 1"
proof -
  have run: "get_audio_stream_n 2 clip3 2 = Inr ([[1, 2], [3]], clip3_played)"
    by (simp add: numeral_2_eq_2 get_audio_stream_def clip3_def clip3_played_def
        py_slice_def slice_bound_def Let_def)
  have rest: "(length [1, 2, 3::real] + 2 - 1) div 2 = (2::nat) \<and>
      int (length (last [[1, 2], [3::real]])) \<noteq> chunk clip3 \<and>
      (length ([]::real list) + 2 - 1) div 2 = (0::nat) \<and>
      get_audio_stream_n 0 clip0 2 = Inr ([], clip0) \<and> curr_state clip0 \<noteq> 1"
    by (simp add: clip3_def clip0_def)
  show ?thesis
    using run rest by (rule conjI)
qed

text \<open>
  Claim C4, as the code has it. The cursor is not bounded by the length \<open>L\<close> of the clip:
  a retrieval from cursor \<open>i\<close> returns the slice \<open>[i : i + c]\<close> of the clip and leaves the
  cursor at exactly \<open>i + c\<close>, which is below \<open>L + c\<close> when the retrieval started inside
  the clip. A retrieval that leaves the cursor at or past \<open>L\<close> sets the state to 1
  (silence); one that leaves it before \<open>L\<close> does not touch the state. The audio is never
  replayed: a retrieval from at or past the end returns an empty chunk, and the chunks of
  any number \<open>k\<close> of successive retrievals are together the \<open>k * c\<close> samples (or fewer, at
  the end of the clip) that follow the initial cursor.
\<close>

theorem get_audio_stream_cursor:
  assumes "custom_audio_cycle s a = Some audio" and "custom_audio_index s a = Some (int i)"
    and "chunk s = int c"
  shows "\<exists>x s' idx'. get_audio_stream s a = Inr (x, s') \<and>
           x = take c (drop i audio) \<and>
           custom_audio_index s' a = Some idx' \<and> idx' = int i + int c \<and>
           custom_audio_cycle s' = custom_audio_cycle s \<and>
           (i < length audio \<longrightarrow> idx' < int (length audio) + int c) \<and>
           (length audio \<le> i + c \<longrightarrow> curr_state s' = 1) \<and>
           (i + c < length audio \<longrightarrow> curr_state s' = curr_state s) \<and>
           (length audio \<le> i \<longrightarrow> x = []) \<and>
           (\<forall>k. \<exists>chunks sk. get_audio_stream_n k s a = Inr (chunks, sk) \<and>
                  concat chunks = take (k * c) (drop i audio))"
proof -
  let ?s' = "s\<lparr>custom_audio_index := (custom_audio_index s)(a \<mapsto> int i + chunk s),
                  curr_state := (if int (length audio) \<le> int i + chunk s then 1 else curr_state s)\<rparr>"
  have step: "get_audio_stream s a = Inr (take c (drop i audio), ?s')"
    using assms by (simp add: get_audio_stream_step py_slice_nat)
  have a1: "custom_audio_index ?s' a = Some (int i + int c)"
    using assms(3) by simp
  have a2: "custom_audio_cycle ?s' = custom_audio_cycle s"
    by simp
  have a3: "length audio \<le> i + c \<longrightarrow> curr_state ?s' = 1"
    using assms(3) by auto
  have a4: "i + c < length audio \<longrightarrow> curr_state ?s' = curr_state s"
    using assms(3) by auto
  have a5: "length audio \<le> i \<longrightarrow> take c (drop i audio) = []"
    by simp
  have a6: "\<forall>k. \<exists>chunks sk. get_audio_stream_n k s a = Inr (chunks, sk) \<and>
                  concat chunks = take (k * c) (drop i audio)"
    using get_audio_stream_n_concat [OF assms] by blast
  have a7: "i < length audio \<longrightarrow> int i + int c < int (length audio) + int c"
    by simp
  show ?thesis
    using step a1 a2 a3 a4 a5 a6 a7 by blast
qed

theorem get_audio_stream_cursor_witness:
  "custom_audio_cycle clip3 2 = Some [1, 2, 3] \<and> custom_audio_index clip3 2 = Some (int 0) \<and>
   chunk clip3 = int 2 \<and>
   (\<exists>s'. get_audio_stream clip3 2 = Inr ([1, 2], s') \<and> custom_audio_index s' 2 = Some 2 \<and>
      curr_state s' = curr_state clip3)"
proof -
  have h1: "custom_audio_cycle clip3 2 = Some [1, 2, 3]"
    and h2: "custom_audio_index clip3 2 = Some (int 0)"
    and h3: "chunk clip3 = int 2"
    by (simp_all add: clip3_def)
  from get_audio_stream_cursor [OF h1 h2 h3]
  obtain x s' idx' where "get_audio_stream clip3 2 = Inr (x, s')"
    and "x = take 2 (drop 0 [1, 2, 3::real])"
    and "custom_audio_index s' 2 = Some idx'" and "idx' = int 0 + int 2"
    and "0 + 2 < length [1, 2, 3::real] \<longrightarrow> curr_state s' = curr_state clip3"
    by blast
  then have "get_audio_stream clip3 2 = Inr ([1, 2], s') \<and> custom_audio_index s' 2 = Some 2 \<and>
      curr_state s' = curr_state clip3"
    by simp
  then show ?thesis
    using h1 h2 h3 by blast
qed

text \<open>
  The claim as stated fails: with three samples and chunks of two, the second retrieval
  leaves the cursor at 4, past the length 3 of the clip.
\<close>

theorem cursor_exceeds_clip_counterexample:
  "get_audio_stream_n 2 clip3 2 = Inr ([[1, 2], [3]], clip3_played) \<and>
   custom_audio_index clip3_played 2 = Some 4 \<and>
   custom_audio_cycle clip3_played 2 = Some [1, 2, 3] \<and>
   int (length [1, 2, 3::real]) < 4"
proof -
  have run: "get_audio_stream_n 2 clip3 2 = Inr ([[1, 2], [3]], clip3_played)"
    by (simp add: numeral_2_eq_2 get_audio_stream_def clip3_def clip3_played_def
        py_slice_def slice_bound_def Let_def)
  have rest: "custom_audio_index clip3_played 2 = Some 4 \<and>
      custom_audio_cycle clip3_played 2 = Some [1, 2, 3] \<and> int (length [1, 2, 3::real]) < 4"
    by (simp add: clip3_def clip3_played_def)
  show ?thesis
    using run rest by (rule conjI)
qed

section \<open>Mirrored indexing\<close>

lemma mirror_index_even_turn:
  assumes "0 < sz" "0 \<le> k" "0 \<le> j" "j < sz"
  shows "mirror_index sz (2 * k * sz + j) = Inr j"
proof -
  have d: "(2 * k * sz + j) div sz = 2 * k"
    using assms by (simp add: div_pos_pos_trivial)
  have m: "(2 * k * sz + j) mod sz = j"
    using assms by (simp add: mod_pos_pos_trivial)
  show ?thesis
    using assms d m by (simp add: mirror_index_def Let_def)
qed

lemma mirror_index_odd_turn:
  assumes "0 < sz" "0 \<le> k" "0 \<le> j" "j < sz"
  shows "mirror_index sz ((2 * k + 1) * sz + j) = Inr (sz - 1 - j)"
proof -
  have d: "((2 * k + 1) * sz + j) div sz = 2 * k + 1"
    using assms by (simp add: div_pos_pos_trivial)
  have m: "((2 * k + 1) * sz + j) mod sz = j"
    using assms by (simp add: mod_pos_pos_trivial)
  have odd: "(2 * k + 1) mod 2 = (1::int)"
    by presburger
  show ?thesis
    using assms by (simp add: mirror_index_def Let_def d m odd del: mult_Suc)
qed

text \<open>
  Claim C3. For every \<open>index \<ge> 0\<close> and \<open>size > 0\<close>, \<^verbatim>\<open>mirror_index(size, index)\<close> is
  \<open>index % size\<close> when \<open>index // size\<close> is even and \<open>size - index % size - 1\<close> otherwise; the
  result lies in \<open>[0, size)\<close>; and the sequence over \<open>index = 0, 1, 2, ...\<close> is the
  ping-pong ramp of period \<open>2 * size\<close>: on the \<open>2k\<close>-th block of \<open>size\<close> indices it
  climbs \<open>0, ..., size - 1\<close>, on the next block it descends \<open>size - 1, ..., 0\<close>.
\<close>

theorem mirror_index_ping_pong:
  assumes "0 \<le> index" and "0 < sz"
  shows "mirror_index sz index =
           Inr (if even (index div sz) then index mod sz else sz - index mod sz - 1) \<and>
         (\<exists>v. mirror_index sz index = Inr v \<and> 0 \<le> v \<and> v < sz) \<and>
         (\<forall>k j. 0 \<le> k \<and> 0 \<le> j \<and> j < sz \<longrightarrow>
           mirror_index sz (2 * k * sz + j) = Inr j \<and>
           mirror_index sz ((2 * k + 1) * sz + j) = Inr (sz - 1 - j))"
proof (intro conjI)
  show "mirror_index sz index =
          Inr (if even (index div sz) then index mod sz else sz - index mod sz - 1)"
    using assms by (simp add: mirror_index_def Let_def even_iff_mod_2_eq_zero)
  have lo: "0 \<le> index mod sz" and hi: "index mod sz < sz"
    using assms by simp_all
  show "\<exists>v. mirror_index sz index = Inr v \<and> 0 \<le> v \<and> v < sz"
    using assms lo hi by (auto simp: mirror_index_def Let_def)
  show "\<forall>k j. 0 \<le> k \<and> 0 \<le> j \<and> j < sz \<longrightarrow>
          mirror_index sz (2 * k * sz + j) = Inr j \<and>
          mirror_index sz ((2 * k + 1) * sz + j) = Inr (sz - 1 - j)"
    using assms mirror_index_even_turn mirror_index_odd_turn by blast
qed

theorem mirror_index_ping_pong_witness:
  "(0::int) \<le> 7 \<and> (0::int) < 3 \<and>
   mirror_index 3 7 = Inr 1 \<and>
   mirror_index 3 (2 * 1 * 3 + 2) = Inr 2 \<and>
   mirror_index 3 ((2 * 1 + 1) * 3 + 2) = Inr (3 - 1 - 2)"
proof -
  have h1: "(0::int) \<le> 7" and h2: "(0::int) < 3"
    by simp_all
  from mirror_index_ping_pong [OF h1 h2]
  have a: "mirror_index 3 7 = Inr (if even ((7::int) div 3) then 7 mod 3 else 3 - 7 mod 3 - 1)"
    and b: "\<forall>k j. 0 \<le> k \<and> 0 \<le> j \<and> j < 3 \<longrightarrow>
           mirror_index 3 (2 * k * 3 + j) = Inr j \<and>
           mirror_index 3 ((2 * k + 1) * 3 + j) = Inr (3 - 1 - j)"
    by blast+
  from b have c: "mirror_index 3 (2 * 1 * 3 + 2) = Inr 2 \<and>
           mirror_index 3 ((2 * 1 + 1) * 3 + 2) = Inr (3 - 1 - 2)"
    by (rule allE [where x = 1], elim allE [where x = 2]) simp
  from a have "mirror_index 3 7 = Inr 1"
    by simp
  with c h1 h2 show ?thesis
    by blast
qed

section \<open>Resetting and switching the playback state\<close>

text \<open>
  Claim C6. \<^verbatim>\<open>init_customindex\<close> is idempotent: applied twice it gives the same object as
  applied once, and that object has state 0 (inference), the value 0 at every key of the
  audio cursors and of the image cursors, the same keys as before, and the clips, images,
  options and chunk length untouched.
\<close>

theorem init_customindex_idempotent:
  "init_customindex (init_customindex s) = init_customindex s \<and>
   curr_state (init_customindex s) = 0 \<and>
   (\<forall>key \<in> dom (custom_audio_index s). custom_audio_index (init_customindex s) key = Some 0) \<and>
   (\<forall>key \<in> dom (custom_index s). custom_index (init_customindex s) key = Some 0) \<and>
   dom (custom_audio_index (init_customindex s)) = dom (custom_audio_index s) \<and>
   dom (custom_index (init_customindex s)) = dom (custom_index s) \<and>
   custom_audio_cycle (init_customindex s) = custom_audio_cycle s \<and>
   custom_img_cycle (init_customindex s) = custom_img_cycle s \<and>
   custom_opt (init_customindex s) = custom_opt s \<and>
   chunk (init_customindex s) = chunk s"
proof -
  have "(\<lambda>key. map_option (\<lambda>_. 0::int) (map_option (\<lambda>_. 0::int) (m key))) =
        (\<lambda>key. map_option (\<lambda>_. 0) (m key))" for m :: "int \<rightharpoonup> int"
    by (simp add: option.map_comp comp_def)
  then have idem: "init_customindex (init_customindex s) = init_customindex s"
    by (simp add: init_customindex_def)
  have doms: "dom (\<lambda>key. map_option (\<lambda>_. 0::int) (m key)) = dom m" for m :: "int \<rightharpoonup> int"
    by (auto simp: dom_def)
  show ?thesis
    using idem doms by (auto simp: init_customindex_def)
qed

theorem init_customindex_idempotent_witness:
  "init_customindex (init_customindex paused) = init_customindex paused \<and>
   curr_state paused = 1 \<and> curr_state (init_customindex paused) = 0 \<and>
   custom_audio_index paused 2 = Some 2 \<and>
   custom_audio_index (init_customindex paused) 2 = Some 0 \<and>
   custom_index paused 2 = Some 5 \<and>
   custom_index (init_customindex paused) 2 = Some 0"
proof -
  have d: "2 \<in> dom (custom_audio_index paused)" "2 \<in> dom (custom_index paused)"
    by (simp_all add: paused_def)
  have before: "curr_state paused = 1 \<and> custom_audio_index paused 2 = Some 2 \<and>
      custom_index paused 2 = Some 5"
    by (simp add: paused_def)
  show ?thesis
    using init_customindex_idempotent [of paused] d before by blast
qed

text \<open>
  Claim C10. For a registered id, \<^verbatim>\<open>set_curr_state(id, reinit=False)\<close> changes the field
  \<^verbatim>\<open>curr_state\<close> and nothing else: both cursor dictionaries are the ones before the call,
  so the next retrieval from that source returns the slice at the saved audio cursor.
\<close>

theorem set_curr_state_resume:
  assumes "custom_audio_cycle s a = Some audio" and "custom_audio_index s a = Some idx"
  shows "set_curr_state s a False = s\<lparr>curr_state := a\<rparr> \<and>
         curr_state (set_curr_state s a False) = a \<and>
         custom_audio_index (set_curr_state s a False) = custom_audio_index s \<and>
         custom_index (set_curr_state s a False) = custom_index s \<and>
         (\<exists>s'. get_audio_stream (set_curr_state s a False) a =
                  Inr (py_slice audio idx (idx + chunk s), s'))"
  using assms by (simp add: set_curr_state_def get_audio_stream_def Let_def)

theorem set_curr_state_resume_witness:
  "custom_audio_cycle paused 2 = Some [1, 2, 3] \<and> custom_audio_index paused 2 = Some 2 \<and>
   curr_state paused = 1 \<and>
   curr_state (set_curr_state paused 2 False) = 2 \<and>
   custom_audio_index (set_curr_state paused 2 False) 2 = Some 2 \<and>
   custom_index (set_curr_state paused 2 False) 2 = Some 5 \<and>
   (\<exists>s'. get_audio_stream (set_curr_state paused 2 False) 2 = Inr ([3], s'))"
proof -
  have h1: "custom_audio_cycle paused 2 = Some [1, 2, 3]"
    and h2: "custom_audio_index paused 2 = Some 2"
    and h3: "curr_state paused = 1" and h4: "custom_index paused 2 = Some 5"
    and h5: "chunk paused = 2"
    by (simp_all add: paused_def clip3_def)
  have sl: "py_slice [1, 2, 3::real] 2 (2 + 2) = [3]"
    by (simp add: py_slice_def slice_bound_def Let_def)
  from set_curr_state_resume [OF h1 h2]
  show ?thesis
    using h1 h2 h3 h4 h5 sl by auto
qed

section \<open>The frame source\<close>

lemma get_audio_frame_dequeue:
  "queue s = frame # rest \<Longrightarrow> get_audio_frame s = Inr ((frame, 0), s\<lparr>queue := rest\<rparr>)"
  by (simp add: get_audio_frame_def)

lemma put_audio_frame_then_get:
  "queue s = [] \<Longrightarrow> get_audio_frame (put_audio_frame s x) = Inr ((x, 0), s)"
  by (simp add: get_audio_frame_def put_audio_frame_def)

lemma get_audio_frame_silence:
  assumes "queue s = []" and "0 \<le> asr_chunk s"
    and "parent s = None \<or> (\<exists>p. parent s = Some p \<and> curr_state p \<le> 1)"
  shows "get_audio_frame s = Inr ((replicate (nat (asr_chunk s)) 0, 1), s)"
  using assms by (auto simp: get_audio_frame_def np_zeros_def)

lemma get_audio_frame_custom:
  assumes "queue s = []" and "parent s = Some p" and "1 < curr_state p"
    and "custom_audio_cycle p (curr_state p) = Some audio"
    and "custom_audio_index p (curr_state p) = Some idx"
  shows "\<exists>p1. get_audio_frame s =
           Inr ((py_slice audio idx (idx + chunk p),
                 if int (length audio) \<le> idx + chunk p then 1 else curr_state p),
                s\<lparr>parent := Some p1\<rparr>) \<and>
           get_audio_stream p (curr_state p) = Inr (py_slice audio idx (idx + chunk p), p1)"
  using assms by (simp add: get_audio_frame_def get_audio_stream_step)

text \<open>
  Claim C2, evaluated on the code. The queue is empty and the current state is the custom
  source 2, whose clip has three samples and is read in chunks of two. The first call
  returns the chunk \<open>[1, 2]\<close> tagged 2. The second call returns the rest of the clip, the
  chunk \<open>[3]\<close>, tagged 1 (silence) instead of 2: the retrieval has set the state to 1
  before the tag is read from it.
\<close>

theorem get_audio_frame_final_custom_chunk_tagged_silence:
  "get_audio_frames 2 asr3 =
     Inr ([([1, 2], 2), ([3], 1)], asr3\<lparr>parent := Some clip3_played\<rparr>)"
  by (simp add: numeral_2_eq_2 get_audio_frame_def get_audio_stream_def asr3_def clip3_def
      clip3_played_def py_slice_def slice_bound_def Let_def)

text \<open>
  Claim C9. \<^verbatim>\<open>pause_talk\<close> empties the inbound queue and changes nothing else: the parent
  object (with its current state and all cursors), the frames buffer, the output channel
  and the feature channel are the ones before the call.
\<close>

theorem pause_talk_frame:
  "queue (pause_talk s) = [] \<and>
   parent (pause_talk s) = parent s \<and>
   frames (pause_talk s) = frames s \<and>
   output_queue (pause_talk s) = output_queue s \<and>
   feat_queue (pause_talk s) = feat_queue s \<and>
   pause_talk s = s\<lparr>queue := []\<rparr>"
  by (simp add: pause_talk_def)

section \<open>Warm-up\<close>

lemma get_audio_frame_buffers:
  "get_audio_frame (s\<lparr>frames := F, output_queue := Q\<rparr>) =
     (case get_audio_frame s of
        Inl e \<Rightarrow> Inl e
      | Inr (x, s1) \<Rightarrow> Inr (x, s1\<lparr>frames := F, output_queue := Q\<rparr>))"
  by (simp add: get_audio_frame_def split: list.splits option.splits sum.splits prod.splits)

lemma get_audio_frame_keeps:
  assumes "get_audio_frame s = Inr (x, s1)"
  shows "frames s1 = frames s \<and> output_queue s1 = output_queue s \<and>
         stride_left_size s1 = stride_left_size s \<and>
         stride_right_size s1 = stride_right_size s"
  using assms
  by (auto simp: get_audio_frame_def split: list.splits option.splits sum.splits prod.splits if_splits)

lemma get_audio_frames_buffers:
  "get_audio_frames n (s\<lparr>frames := F, output_queue := Q\<rparr>) =
     (case get_audio_frames n s of
        Inl e \<Rightarrow> Inl e
      | Inr (xs, s2) \<Rightarrow> Inr (xs, s2\<lparr>frames := F, output_queue := Q\<rparr>))"
proof (induction n arbitrary: s)
  case 0
  then show ?case by simp
next
  case (Suc n)
  show ?case
  proof (cases "get_audio_frame s")
    case (Inl e)
    then show ?thesis by (simp add: get_audio_frame_buffers)
  next
    case (Inr r)
    obtain x s1 where r: "r = (x, s1)" by (cases r)
    show ?thesis
      using Inr r Suc.IH [of s1]
      by (simp add: get_audio_frame_buffers split: sum.splits prod.splits)
  qed
qed

lemma get_audio_frames_keeps:
  "get_audio_frames n s = Inr (xs, s2) \<Longrightarrow>
     length xs = n \<and> frames s2 = frames s \<and> output_queue s2 = output_queue s \<and>
     stride_left_size s2 = stride_left_size s \<and> stride_right_size s2 = stride_right_size s"
proof (induction n arbitrary: s xs)
  case 0
  then show ?case by simp
next
  case (Suc n)
  from Suc.prems obtain x s1 ys where a: "get_audio_frame s = Inr (x, s1)"
    and b: "get_audio_frames n s1 = Inr (ys, s2)" and c: "xs = x # ys"
    by (auto split: sum.splits prod.splits)
  show ?case
    using Suc.IH [OF b] get_audio_frame_keeps [OF a] c by simp
qed

lemma warm_up_fill_frames:
  "warm_up_fill n s =
     (case get_audio_frames n s of
        Inl e \<Rightarrow> Inl e
      | Inr (pairs, s2) \<Rightarrow>
          Inr (s2\<lparr>frames := frames s @ map fst pairs,
                  output_queue := output_queue s @ pairs\<rparr>))"
proof (induction n arbitrary: s)
  case 0
  then show ?case by simp
next
  case (Suc n)
  show ?case
  proof (cases "get_audio_frame s")
    case (Inl e)
    then show ?thesis by simp
  next
    case (Inr r)
    obtain audio_frame frame_type s1 where r: "r = ((audio_frame, frame_type), s1)"
      by (cases r) auto
    have k: "frames s1 = frames s" "output_queue s1 = output_queue s"
      using get_audio_frame_keeps [of s "(audio_frame, frame_type)" s1] Inr r by simp_all
    show ?thesis
    proof (cases "get_audio_frames n s1")
      case (Inl e)
      then show ?thesis
        using Inr r by (simp add: Suc.IH get_audio_frames_buffers)
    next
      case (Inr q)
      obtain ps s2 where q: "q = (ps, s2)" by (cases q)
      show ?thesis
        using \<open>get_audio_frame s = Inr r\<close> r Inr q k
        by (simp add: Suc.IH get_audio_frames_buffers)
    qed
  qed
qed

lemma get_audio_frame_playable:
  assumes "playable s"
  shows "\<exists>x s1. get_audio_frame s = Inr (x, s1) \<and> playable s1"
proof (cases "queue s")
  case (Cons frame rest)
  then show ?thesis
    using assms by (simp add: get_audio_frame_def playable_def)
next
  case Nil
  show ?thesis
  proof (cases "parent s")
    case None
    then show ?thesis
      using assms Nil by (simp add: get_audio_frame_def playable_def np_zeros_def)
  next
    case (Some p)
    show ?thesis
    proof (cases "1 < curr_state p")
      case False
      then show ?thesis
        using assms Nil Some by (simp add: get_audio_frame_def playable_def np_zeros_def)
    next
      case True
      then obtain idx audio where i: "custom_audio_index p (curr_state p) = Some idx"
        and c: "custom_audio_cycle p (curr_state p) = Some audio"
        using assms Some by (auto simp: playable_def)
      show ?thesis
        using assms Nil Some True
        by (simp add: get_audio_frame_def playable_def get_audio_stream_step [OF c i] c)
    qed
  qed
qed

lemma get_audio_frames_playable:
  "playable s \<Longrightarrow> \<exists>xs s2. get_audio_frames n s = Inr (xs, s2) \<and> playable s2"
proof (induction n arbitrary: s)
  case 0
  then show ?case by simp
next
  case (Suc n)
  from get_audio_frame_playable [OF Suc.prems]
  obtain x s1 where a: "get_audio_frame s = Inr (x, s1)" and p: "playable s1"
    by blast
  from Suc.IH [OF p] obtain xs s2 where "get_audio_frames n s1 = Inr (xs, s2)" "playable s2"
    by blast
  then show ?case
    using a by simp
qed

lemma warm_up_drain_drop:
  "n \<le> length (output_queue s) \<Longrightarrow>
     warm_up_drain n s = Inr (s\<lparr>output_queue := drop n (output_queue s)\<rparr>)"
proof (induction n arbitrary: s)
  case 0
  then show ?case by simp
next
  case (Suc n)
  then obtain x rest where q: "output_queue s = x # rest"
    by (cases "output_queue s") auto
  have "n \<le> length (output_queue (s\<lparr>output_queue := rest\<rparr>))"
    using Suc.prems q by simp
  from Suc.IH [OF this] show ?case
    using q by (simp add: get_audio_out_def)
qed

text \<open>
  Claim C5. In a state where \<^verbatim>\<open>get_audio_frame\<close> cannot raise, and for strides
  \<open>l, r \<ge> 0\<close>, \<^verbatim>\<open>warm_up\<close> returns. It pulls exactly \<open>l + r\<close> pairs through
  \<^verbatim>\<open>get_audio_frame\<close>, appends the chunk of each to the frames buffer and each pair to the
  output channel, in that order, and then removes the \<open>l\<close> oldest pairs from the channel.
  Starting from empty buffers, the frames buffer then holds \<open>l + r\<close> chunks and the output
  channel exactly \<open>r\<close> pairs.
\<close>

theorem warm_up_primes_buffers:
  assumes "playable s" and "0 \<le> stride_left_size s" and "0 \<le> stride_right_size s"
  shows "\<exists>pairs s2.
           get_audio_frames (nat (stride_left_size s + stride_right_size s)) s = Inr (pairs, s2) \<and>
           int (length pairs) = stride_left_size s + stride_right_size s \<and>
           warm_up s =
             Inr (s2\<lparr>frames := frames s @ map fst pairs,
                     output_queue := drop (nat (stride_left_size s)) (output_queue s @ pairs)\<rparr>) \<and>
           (frames s = [] \<and> output_queue s = [] \<longrightarrow>
              (\<exists>s'. warm_up s = Inr s' \<and>
                 frames s' = map fst pairs \<and>
                 output_queue s' = drop (nat (stride_left_size s)) pairs \<and>
                 int (length (frames s')) = stride_left_size s + stride_right_size s \<and>
                 int (length (output_queue s')) = stride_right_size s))"
proof -
  let ?l = "stride_left_size s" and ?r = "stride_right_size s"
  from get_audio_frames_playable [OF assms(1), of "nat (?l + ?r)"]
  obtain pairs s2 where run: "get_audio_frames (nat (?l + ?r)) s = Inr (pairs, s2)"
    by blast
  from get_audio_frames_keeps [OF run]
  have len: "length pairs = nat (?l + ?r)" and sl: "stride_left_size s2 = ?l"
    by simp_all
  have len': "int (length pairs) = ?l + ?r"
    using len assms(2,3) by simp
  let ?s1 = "s2\<lparr>frames := frames s @ map fst pairs, output_queue := output_queue s @ pairs\<rparr>"
  have fill: "warm_up_fill (nat (?l + ?r)) s = Inr ?s1"
    using run by (simp add: warm_up_fill_frames)
  have "nat ?l \<le> length (output_queue ?s1)"
    using len assms(2,3) by simp
  from warm_up_drain_drop [OF this]
  have drain: "warm_up_drain (nat ?l) ?s1 =
      Inr (s2\<lparr>frames := frames s @ map fst pairs,
              output_queue := drop (nat ?l) (output_queue s @ pairs)\<rparr>)"
    by simp
  have w: "warm_up s =
      Inr (s2\<lparr>frames := frames s @ map fst pairs,
              output_queue := drop (nat ?l) (output_queue s @ pairs)\<rparr>)"
    using fill drain sl by (simp add: warm_up_def)
  have "int (length (drop (nat ?l) pairs)) = ?r"
    using len assms(2,3) by simp
  then show ?thesis
    using run len' w by auto
qed

theorem warm_up_primes_buffers_witness:
  "playable asr3 \<and> 0 \<le> stride_left_size asr3 \<and> 0 \<le> stride_right_size asr3 \<and>
   frames asr3 = [] \<and> output_queue asr3 = [] \<and>
   stride_left_size asr3 = 2 \<and> stride_right_size asr3 = 1 \<and>
   (\<exists>s'. warm_up asr3 = Inr s' \<and> int (length (frames s')) = 3 \<and>
      int (length (output_queue s')) = 1)"
proof -
  have h1: "playable asr3"
    by (simp add: playable_def asr3_def clip3_def)
  have h2: "0 \<le> stride_left_size asr3" and h3: "0 \<le> stride_right_size asr3"
    and e: "frames asr3 = [] \<and> output_queue asr3 = []"
    and v: "stride_left_size asr3 = 2" "stride_right_size asr3 = 1"
    by (simp_all add: asr3_def)
  from warm_up_primes_buffers [OF h1 h2 h3] e
  have "\<exists>s'. warm_up asr3 = Inr s' \<and>
      int (length (frames s')) = stride_left_size asr3 + stride_right_size asr3 \<and>
      int (length (output_queue s')) = stride_right_size asr3"
    by blast
  then have "\<exists>s'. warm_up asr3 = Inr s' \<and> int (length (frames s')) = 3 \<and>
      int (length (output_queue s')) = 1"
    using v by simp
  then show ?thesis
    using h1 h2 h3 e v by blast
qed

text \<open>
  The same run evaluated: two chunks of the clip, then silence; the two oldest pairs are
  removed from the channel, and the frames buffer keeps all three chunks.
\<close>

lemma warm_up_example:
  "warm_up asr3 =
     Inr (asr3\<lparr>parent := Some clip3_played, frames := [[1, 2], [3], [0, 0]],
               output_queue := [([0, 0], 1)]\<rparr>)"
  by (simp add: warm_up_def numeral_2_eq_2 numeral_3_eq_3 get_audio_frame_def
      get_audio_out_def get_audio_stream_def asr3_def clip3_def clip3_played_def
      py_slice_def slice_bound_def Let_def np_zeros_def)

section \<open>Loading is isolated per entry\<close>

lemma load_item_no_id:
  "audiotype item = None \<Longrightarrow> load_item e item acc = Inl KeyError"
  by (cases acc)
     (simp add: load_item_def load_failed_def Let_def split: option.splits prod.splits)

lemma load_item_step:
  assumes "audiotype item = Some a"
  shows "\<exists>s2 out'. load_item e item (s, out) = Inr (s2, out @ out') \<and>
     (\<not> loads_ok e item \<longrightarrow> Error_loading a \<in> set out') \<and>
     curr_state s2 = curr_state s \<and> chunk s2 = chunk s \<and>
     sample_rate s2 = sample_rate s \<and> tts s2 = tts s \<and>
     custom_img_cycle s2 =
       (case loaded_images e item of
          None \<Rightarrow> custom_img_cycle s
        | Some imgs \<Rightarrow> (custom_img_cycle s)(a \<mapsto> imgs)) \<and>
     (if loads_ok e item
      then custom_audio_cycle s2 = (custom_audio_cycle s)(a := loaded_audio e item) \<and>
           custom_audio_index s2 = (custom_audio_index s)(a \<mapsto> 0) \<and>
           custom_index s2 = (custom_index s)(a \<mapsto> 0) \<and>
           custom_opt s2 = (custom_opt s)(a \<mapsto> item)
      else custom_audio_cycle s2 = custom_audio_cycle s \<and>
           custom_audio_index s2 = custom_audio_index s \<and>
           custom_index s2 = custom_index s \<and>
           custom_opt s2 = custom_opt s)"
  using assms
  by (auto simp: load_item_def load_failed_def loads_ok_def loaded_images_def loaded_audio_def
      Let_def split: option.splits prod.splits)

lemma load_items_snoc:
  "load_items e (xs @ [x]) acc =
     (case load_items e xs acc of Inl err \<Rightarrow> Inl err | Inr m \<Rightarrow> load_item e x m)"
  by (induction xs arbitrary: acc) (auto split: sum.splits)

lemma load_items_no_id:
  "\<exists>item \<in> set items. audiotype item = None \<Longrightarrow> load_items e items acc = Inl KeyError"
proof (induction items arbitrary: acc)
  case Nil
  then show ?case by simp
next
  case (Cons x xs)
  show ?case
  proof (cases "audiotype x")
    case None
    then show ?thesis by (simp add: load_item_no_id)
  next
    case (Some a)
    obtain s out where acc: "acc = (s, out)" by (cases acc)
    from load_item_step [OF Some, of e s out]
    obtain s2 out' where st: "load_item e x acc = Inr (s2, out @ out')"
      using acc by blast
    have "\<exists>item \<in> set xs. audiotype item = None"
      using Cons.prems Some by auto
    from Cons.IH [OF this] show ?thesis
      using st by simp
  qed
qed

lemma load_items_result:
  assumes "\<forall>item \<in> set items. audiotype item \<noteq> None"
  shows "\<exists>s' out'. load_items e items (s, out) = Inr (s', out @ out') \<and>
     (\<forall>item \<in> set items. \<not> loads_ok e item \<longrightarrow>
        Error_loading (the (audiotype item)) \<in> set out') \<and>
     curr_state s' = curr_state s \<and> chunk s' = chunk s \<and>
     sample_rate s' = sample_rate s \<and> tts s' = tts s \<and>
     (\<forall>a. custom_img_cycle s' a =
        (case last_imaged e items a of
           None \<Rightarrow> custom_img_cycle s a
         | Some item \<Rightarrow> loaded_images e item)) \<and>
     (\<forall>a. case last_loaded e items a of
        None \<Rightarrow>
          custom_audio_cycle s' a = custom_audio_cycle s a \<and>
          custom_audio_index s' a = custom_audio_index s a \<and>
          custom_index s' a = custom_index s a \<and>
          custom_opt s' a = custom_opt s a
      | Some item \<Rightarrow>
          custom_audio_cycle s' a = loaded_audio e item \<and>
          custom_audio_index s' a = Some 0 \<and>
          custom_index s' a = Some 0 \<and>
          custom_opt s' a = Some item)"
  using assms
proof (induction items rule: rev_induct)
  case Nil
  then show ?case
    by (simp add: last_imaged_def last_loaded_def)
next
  case (snoc x xs)
  from snoc.prems obtain a where a: "audiotype x = Some a"
    by auto
  have "\<forall>item \<in> set xs. audiotype item \<noteq> None"
    using snoc.prems by simp
  from snoc.IH [OF this]
  obtain m out1 where run: "load_items e xs (s, out) = Inr (m, out @ out1)"
    and log: "\<forall>item \<in> set xs. \<not> loads_ok e item \<longrightarrow>
        Error_loading (the (audiotype item)) \<in> set out1"
    and sc: "curr_state m = curr_state s" "chunk m = chunk s"
      "sample_rate m = sample_rate s" "tts m = tts s"
    and img: "\<forall>a. custom_img_cycle m a =
        (case last_imaged e xs a of
           None \<Rightarrow> custom_img_cycle s a
         | Some item \<Rightarrow> loaded_images e item)"
    and dic: "\<forall>a. case last_loaded e xs a of
        None \<Rightarrow>
          custom_audio_cycle m a = custom_audio_cycle s a \<and>
          custom_audio_index m a = custom_audio_index s a \<and>
          custom_index m a = custom_index s a \<and>
          custom_opt m a = custom_opt s a
      | Some item \<Rightarrow>
          custom_audio_cycle m a = loaded_audio e item \<and>
          custom_audio_index m a = Some 0 \<and>
          custom_index m a = Some 0 \<and>
          custom_opt m a = Some item"
    by blast
  from load_item_step [OF a, of e m "out @ out1"]
  obtain s2 out2 where st: "load_item e x (m, out @ out1) = Inr (s2, (out @ out1) @ out2)"
    and log2: "\<not> loads_ok e x \<longrightarrow> Error_loading a \<in> set out2"
    and sc2: "curr_state s2 = curr_state m" "chunk s2 = chunk m"
      "sample_rate s2 = sample_rate m" "tts s2 = tts m"
    and img2: "custom_img_cycle s2 =
       (case loaded_images e x of
          None \<Rightarrow> custom_img_cycle m
        | Some imgs \<Rightarrow> (custom_img_cycle m)(a \<mapsto> imgs))"
    and dic2: "if loads_ok e x
      then custom_audio_cycle s2 = (custom_audio_cycle m)(a := loaded_audio e x) \<and>
           custom_audio_index s2 = (custom_audio_index m)(a \<mapsto> 0) \<and>
           custom_index s2 = (custom_index m)(a \<mapsto> 0) \<and>
           custom_opt s2 = (custom_opt m)(a \<mapsto> x)
      else custom_audio_cycle s2 = custom_audio_cycle m \<and>
           custom_audio_index s2 = custom_audio_index m \<and>
           custom_index s2 = custom_index m \<and>
           custom_opt s2 = custom_opt m"
    by blast
  have r: "load_items e (xs @ [x]) (s, out) = Inr (s2, out @ (out1 @ out2))"
    using run st by (simp add: load_items_snoc)
  have l: "\<forall>item \<in> set (xs @ [x]). \<not> loads_ok e item \<longrightarrow>
        Error_loading (the (audiotype item)) \<in> set (out1 @ out2)"
    using log log2 a by auto
  have i: "\<forall>b. custom_img_cycle s2 b =
        (case last_imaged e (xs @ [x]) b of
           None \<Rightarrow> custom_img_cycle s b
         | Some item \<Rightarrow> loaded_images e item)"
  proof
    fix b
    show "custom_img_cycle s2 b =
        (case last_imaged e (xs @ [x]) b of
           None \<Rightarrow> custom_img_cycle s b
         | Some item \<Rightarrow> loaded_images e item)"
      using img [rule_format, of b] img2 a
      by (cases "loaded_images e x") (auto simp: last_imaged_def)
  qed
  have d: "\<forall>b. case last_loaded e (xs @ [x]) b of
        None \<Rightarrow>
          custom_audio_cycle s2 b = custom_audio_cycle s b \<and>
          custom_audio_index s2 b = custom_audio_index s b \<and>
          custom_index s2 b = custom_index s b \<and>
          custom_opt s2 b = custom_opt s b
      | Some item \<Rightarrow>
          custom_audio_cycle s2 b = loaded_audio e item \<and>
          custom_audio_index s2 b = Some 0 \<and>
          custom_index s2 b = Some 0 \<and>
          custom_opt s2 b = Some item"
  proof
    fix b
    show "case last_loaded e (xs @ [x]) b of
        None \<Rightarrow>
          custom_audio_cycle s2 b = custom_audio_cycle s b \<and>
          custom_audio_index s2 b = custom_audio_index s b \<and>
          custom_index s2 b = custom_index s b \<and>
          custom_opt s2 b = custom_opt s b
      | Some item \<Rightarrow>
          custom_audio_cycle s2 b = loaded_audio e item \<and>
          custom_audio_index s2 b = Some 0 \<and>
          custom_index s2 b = Some 0 \<and>
          custom_opt s2 b = Some item"
      using dic [rule_format, of b] dic2 a
      by (cases "loads_ok e x") (auto simp: last_loaded_def split: option.splits)
  qed
  show ?case
    using r l sc sc2 i d by (intro exI [of _ s2] exI [of _ "out1 @ out2"]) simp
qed







text \<open>
  The first run of the witness evaluated. The entry with the unreadable audio file prints
  its error and is absent from the audio, cursor and option dictionaries; its image list
  was stored before the audio file was read and stays behind.
\<close>

lemma loadcustom_example:
  "loadcustom example_env [bad_audio4, good2] fresh =
     Inr (fresh\<lparr>custom_img_cycle := [4 \<mapsto> [[9], [10]], 2 \<mapsto> [[9], [10]]],
               custom_audio_cycle := [2 \<mapsto> [1, 2, 3]],
               custom_audio_index := [2 \<mapsto> 0], custom_index := [2 \<mapsto> 0],
               custom_opt := [2 \<mapsto> good2]\<rparr>,
          [Loading_custom bad_audio4, Reading_images, Error_loading 4,
           Loading_custom good2, Reading_images, Loaded 2 2])"
  by (simp add: loadcustom_def load_item_def load_failed_def sorted_by_number_def read_imgs_def
      Let_def example_env_def bad_audio4_def good2_def fresh_def)


section \<open>Misconfiguration\<close>




section \<open>Constructed objects\<close>

text \<open>
  For a positive frame rate, the objects that the two constructors return satisfy what
  the warm-up theorem asks for: the chunk length is not negative, the state is 0, and
  the queue and both buffers are empty.
\<close>

lemma constructed_objects_playable:
  assumes "0 < opt_fps opt" and "init_basereal e opt = Inr (p, out)"
    and "init_baseasr opt (Some p) = Inr s"
  shows "playable s \<and> frames s = [] \<and> output_queue s = [] \<and> queue s = [] \<and>
         curr_state p = 0 \<and> stride_left_size s = opt_l opt \<and> stride_right_size s = opt_r opt"
proof -
  have s: "s = \<lparr>parent = Some p, fps = opt_fps opt, asr_sample_rate = 16000,
                asr_chunk = 16000 div opt_fps opt, queue = [], output_queue = [],
                batch_size = opt_batch_size opt, frames = [],
                stride_left_size = opt_l opt, stride_right_size = opt_r opt,
                feat_queue = []\<rparr>"
    using assms(1,3) by (simp add: init_baseasr_def)
  have "curr_state p = 0"
  proof (cases "select_tts (opt_tts opt)")
    case None
    then show ?thesis
      using assms(1,2) by (simp add: init_basereal_def)
  next
    case (Some engine)
    let ?s0 = "\<lparr>sample_rate = 16000, chunk = 16000 div opt_fps opt, tts = engine,
                 curr_state = 0, custom_img_cycle = Map.empty,
                 custom_audio_cycle = Map.empty, custom_audio_index = Map.empty,
                 custom_index = Map.empty, custom_opt = Map.empty\<rparr>"
    have run: "load_items e (opt_customopt opt) (?s0, []) = Inr (p, out)"
      using assms(1,2) Some by (simp add: init_basereal_def loadcustom_def)
    have keys: "\<forall>item \<in> set (opt_customopt opt). audiotype item \<noteq> None"
    proof (rule ccontr)
      assume "\<not> (\<forall>item \<in> set (opt_customopt opt). audiotype item \<noteq> None)"
      then have "\<exists>item \<in> set (opt_customopt opt). audiotype item = None"
        by simp
      from load_items_no_id [OF this, of e "(?s0, [])"] run show False
        by simp
    qed
    from load_items_result [OF keys, of e ?s0 "[]"] run show ?thesis
      by auto
  qed
  moreover have "(0::int) \<le> 16000 div opt_fps opt"
    using assms(1) by (simp add: pos_imp_zdiv_nonneg_iff)
  ultimately show ?thesis
    using s by (simp add: playable_def)
qed

end
